theory Spec2Isabelle
  imports Main "HOL-Library.Sublist"
begin

section \<open>JavaScript strings and sets\<close>

text \<open>
  Strings are lists of characters. The few methods of the JavaScript string
  and array prototypes that \<^verbatim>\<open>directory-tree-excel.js\<close> calls are written
  out below with the behaviour the language gives them on every input.
\<close>

abbreviation slash :: char where
  "slash \<equiv> CHR ''/''"

abbreviation bslash :: char where
  "bslash \<equiv> CHR 0x5C"

abbreviation newline :: char where
  "newline \<equiv> CHR 0x0A"

text \<open>
  \<^verbatim>\<open>s.split(sep)\<close>: the pieces between the separators, in order. An empty
  string gives one empty piece, a trailing separator gives a trailing empty
  piece. The predicate says which characters separate (one character for
  \<^verbatim>\<open>split('\n')\<close>, two for the regular expression \<^verbatim>\<open>/[/\\]/\<close>).
\<close>

fun split_on :: "(char \<Rightarrow> bool) \<Rightarrow> string \<Rightarrow> string list" where
  "split_on P [] = [[]]"
| "split_on P (c # cs) =
     (if P c then [] # split_on P cs
      else (case split_on P cs of [] \<Rightarrow> [[c]] | w # ws \<Rightarrow> (c # w) # ws))"

text \<open>\<^verbatim>\<open>xs.join(sep)\<close> for a one-character separator.\<close>

fun join_with :: "char \<Rightarrow> string list \<Rightarrow> string" where
  "join_with s [] = []"
| "join_with s [x] = x"
| "join_with s (x # y # ys) = x @ s # join_with s (y # ys)"

text \<open>
  \<^verbatim>\<open>s.trim()\<close> removes white space at both ends; the ASCII white space
  characters are modelled.
\<close>

definition is_space :: "char \<Rightarrow> bool" where
  "is_space c = (c = CHR '' '' \<or> c = CHR 0x09 \<or> c = CHR 0x0A \<or> c = CHR 0x0B
                 \<or> c = CHR 0x0C \<or> c = CHR 0x0D)"

definition trim :: "string \<Rightarrow> string" where
  "trim s = rev (dropWhile is_space (rev (dropWhile is_space s)))"

text \<open>\<^verbatim>\<open>s.toLowerCase()\<close> on the ASCII letters.\<close>

definition toLower :: "char \<Rightarrow> char" where
  "toLower c = (let n = (of_char c :: nat) in
                if 65 \<le> n \<and> n \<le> 90 then char_of (n + 32) else c)"

definition toLowerCase :: "string \<Rightarrow> string" where
  "toLowerCase s = map toLower s"

definition startsWith :: "string \<Rightarrow> string \<Rightarrow> bool" where
  "startsWith s t = (take (length t) s = t)"

definition endsWith :: "string \<Rightarrow> string \<Rightarrow> bool" where
  "endsWith s t = (length t \<le> length s \<and> drop (length s - length t) s = t)"

text \<open>\<^verbatim>\<open>'  '.repeat(n)\<close>.\<close>

definition repeat_indent :: "nat \<Rightarrow> string" where
  "repeat_indent n = concat (replicate n ''  '')"

text \<open>
  A JavaScript \<^verbatim>\<open>Set\<close> of strings keeps its members in insertion order and
  iterates in that order: a list without duplicates, \<^verbatim>\<open>add\<close> appending a
  new member at the end.
\<close>

definition set_add :: "string \<Rightarrow> string list \<Rightarrow> string list" where
  "set_add x xs = (if x \<in> set xs then xs else xs @ [x])"

definition set_has :: "string list \<Rightarrow> string \<Rightarrow> bool" where
  "set_has xs x = (x \<in> set xs)"

section \<open>The platform and the file system\<close>

text \<open>
  \<^verbatim>\<open>path.sep\<close> is the one value of Node's \<^verbatim>\<open>path\<close> module that depends
  on the platform the script runs on.
\<close>

datatype platform = Posix | Win32

fun path_sep :: "platform \<Rightarrow> char" where
  "path_sep Posix = slash"
| "path_sep Win32 = bslash"

text \<open>
  The script only reads the file system, through \<^verbatim>\<open>fs.readdirSync\<close>,
  \<^verbatim>\<open>fs.statSync\<close>, \<^verbatim>\<open>fs.existsSync\<close> and \<^verbatim>\<open>fs.readFileSync\<close>. What these
  calls can observe below one path is a finite tree that does not change during
  the run:
  \<^item> \<open>File c\<close>: a regular file with content \<open>c\<close>;
  \<^item> \<open>Dir items\<close>: a directory, \<open>items\<close> being its listing in the order
    \<^verbatim>\<open>readdirSync\<close> returns it, each name with what it leads to;
  \<^item> \<open>Unreadable\<close>: a directory that \<^verbatim>\<open>statSync\<close> reports but whose listing
    throws;
  \<^item> \<open>Missing\<close>: a path for which both calls throw (it does not exist, or it
    vanished, or it is a dangling link).
\<close>

text \<open>
  A call of the \<^verbatim>\<open>fs\<close> module that fails throws an \<^verbatim>\<open>Error\<close> object. It
  carries the error code, the name of the system call and the path the call
  was made on (\<^verbatim>\<open>error.code\<close>, \<^verbatim>\<open>error.syscall\<close>, \<^verbatim>\<open>error.path\<close>), and
  its message, which \<^verbatim>\<open>console.error\<close> prints, shows all three. A path is
  given by the names below the base path, see the walker below.
\<close>

datatype errno = ENOENT | ENOTDIR | EACCES | EISDIR

datatype fs_error = FsError (code: errno) (syscall: string) (error_path: "string list")

datatype fsnode =
    File string
  | Dir "(string \<times> fsnode) list"
  | Unreadable
  | Missing

text \<open>
  \<^verbatim>\<open>fs.readdirSync(p)\<close>, where the second argument is what the file system
  holds at the path \<open>p\<close>.
\<close>

fun readdirSync :: "string list \<Rightarrow> fsnode \<Rightarrow> fs_error + (string \<times> fsnode) list" where
  "readdirSync p (Dir items) = Inr items"
| "readdirSync p (File c) = Inl (FsError ENOTDIR ''scandir'' p)"
| "readdirSync p Unreadable = Inl (FsError EACCES ''scandir'' p)"
| "readdirSync p Missing = Inl (FsError ENOENT ''scandir'' p)"

text \<open>\<^verbatim>\<open>fs.statSync(p).isDirectory()\<close>.\<close>

fun statSync :: "string list \<Rightarrow> fsnode \<Rightarrow> fs_error + bool" where
  "statSync p (File c) = Inr False"
| "statSync p (Dir items) = Inr True"
| "statSync p Unreadable = Inr True"
| "statSync p Missing = Inl (FsError ENOENT ''stat'' p)"

text \<open>
  \<^verbatim>\<open>fs.existsSync(path.join(d, name))\<close> and
  \<^verbatim>\<open>fs.readFileSync(path.join(d, name), 'utf8')\<close> for a name directly below
  the base directory \<open>d\<close>; \<open>lookup_child\<close> is what the name leads to there.
\<close>

definition lookup_child :: "fsnode \<Rightarrow> string \<Rightarrow> fsnode option" where
  "lookup_child d name = (case d of Dir items \<Rightarrow> map_of items name | _ \<Rightarrow> None)"

definition existsSync :: "fsnode \<Rightarrow> string \<Rightarrow> bool" where
  "existsSync d name =
     (case lookup_child d name of
        None \<Rightarrow> False
      | Some Missing \<Rightarrow> False
      | Some n \<Rightarrow> True)"

definition readFileSync :: "fsnode \<Rightarrow> string \<Rightarrow> fs_error + string" where
  "readFileSync d name =
     (case lookup_child d name of
        None \<Rightarrow> Inl (FsError ENOENT ''open'' [name])
      | Some (File c) \<Rightarrow> Inr c
      | Some (Dir xs) \<Rightarrow> Inl (FsError EISDIR ''read'' [name])
      | Some Unreadable \<Rightarrow> Inl (FsError EISDIR ''read'' [name])
      | Some Missing \<Rightarrow> Inl (FsError ENOENT ''open'' [name]))"

text \<open>What the script writes to the console.\<close>

datatype console =
    ExcludedItems "string list"
  | IncludingOnly "string list"
  | ErrorReadingExclusionFile fs_error
  | ErrorProcessingDirectory "string list" fs_error
  | GeneratedSuccessfully
  | ErrorGeneratingExcel

section \<open>The path filter\<close>

text \<open>
  \<^verbatim>\<open>normalizePath\<close>:
  \<^verbatim>\<open>inputPath.split(/[/\\]/).filter(Boolean).join(path.sep)\<close>.
\<close>

definition is_separator :: "char \<Rightarrow> bool" where
  "is_separator c = (c = slash \<or> c = bslash)"

definition normalizePath :: "platform \<Rightarrow> string \<Rightarrow> string" where
  "normalizePath pf inputPath =
     join_with (path_sep pf) (filter (\<lambda>s. s \<noteq> []) (split_on is_separator inputPath))"

text \<open>
  \<^verbatim>\<open>getExclusionList\<close>: the set starts with the name of the exclusion file;
  when the file exists below the base path, each line that is not blank after
  trimming is normalised and added. An exception of \<^verbatim>\<open>readFileSync\<close> is caught
  and logged, the set built so far is returned. The result is the set together
  with what was logged.
\<close>

abbreviation exclude_file_name :: string where
  "exclude_file_name \<equiv> ''TO_EXCLUDE_TREE_TEMP.txt''"

definition add_line :: "platform \<Rightarrow> string \<Rightarrow> string list \<Rightarrow> string list" where
  "add_line pf line excludeList =
     (let trimmedLine = trim line in
      if trimmedLine \<noteq> [] then set_add (normalizePath pf trimmedLine) excludeList
      else excludeList)"

definition getExclusionList :: "platform \<Rightarrow> fsnode \<Rightarrow> string list \<times> console list" where
  "getExclusionList pf base =
     (let excludeList = [exclude_file_name] in
      if existsSync base exclude_file_name then
        (case readFileSync base exclude_file_name of
           Inl e \<Rightarrow> (excludeList, [ErrorReadingExclusionFile e])
         | Inr content \<Rightarrow>
             (fold (add_line pf) (split_on (\<lambda>c. c = newline) content) excludeList, []))
      else (excludeList, []))"

text \<open>
  \<^verbatim>\<open>shouldExclude\<close>: an exact match of the normalised path, or an entry that
  ends in \<^verbatim>\<open>path.sep\<close> and, with that last character sliced off, equals the
  normalised path or is followed in it by \<^verbatim>\<open>path.sep\<close>.
\<close>

definition shouldExclude :: "platform \<Rightarrow> string \<Rightarrow> string list \<Rightarrow> bool" where
  "shouldExclude pf itemPath excludeList =
     (let normalizedItemPath = normalizePath pf itemPath in
      if set_has excludeList normalizedItemPath then True
      else list_ex (\<lambda>excludePath.
             endsWith excludePath [path_sep pf] \<and>
             (let excludeDir = butlast excludePath in
              normalizedItemPath = excludeDir \<or>
              startsWith normalizedItemPath (excludeDir @ [path_sep pf])))
           excludeList)"

text \<open>
  \<^verbatim>\<open>path.extname\<close> is a function of Node's \<^verbatim>\<open>path\<close> module, not of this
  repository. Its POSIX variant is modelled as Node implements it: one scan of
  the string from its last character to its first, over the five variables
  below, that stops at the first slash after the last path component. The
  extension runs from the last dot of that component to its end; it is empty
  when there is no dot, when nothing precedes the dot, and when the component
  is \<^verbatim>\<open>..\<close>.
\<close>

record ext_scan =
  startDot :: int
  startPart :: int
  endPos :: int
  matchedSlash :: bool
  preDotState :: int

fun extname_scan :: "string \<Rightarrow> nat \<Rightarrow> ext_scan \<Rightarrow> ext_scan" where
  "extname_scan p 0 s = s"
| "extname_scan p (Suc i) s =
     (if p ! i = slash then
        (if \<not> matchedSlash s then s\<lparr>startPart := int i + 1\<rparr>
         else extname_scan p i s)
      else
        (let s1 = (if endPos s = - 1 then s\<lparr>endPos := int i + 1, matchedSlash := False\<rparr>
                   else s);
             s2 = (if p ! i = CHR ''.'' then
                     (if startDot s1 = - 1 then s1\<lparr>startDot := int i\<rparr>
                      else if preDotState s1 \<noteq> 1 then s1\<lparr>preDotState := 1\<rparr>
                      else s1)
                   else if startDot s1 \<noteq> - 1 then s1\<lparr>preDotState := - 1\<rparr>
                   else s1)
         in extname_scan p i s2))"

abbreviation scan_init :: ext_scan where
  "scan_init \<equiv>
     \<lparr>startDot = - 1, startPart = 0, endPos = - 1, matchedSlash = True, preDotState = 0\<rparr>"

definition extname :: "string \<Rightarrow> string" where
  "extname p =
     (let s = extname_scan p (length p) scan_init
      in if startDot s = - 1 \<or> endPos s = - 1 \<or> preDotState s = 0 \<or>
            (preDotState s = 1 \<and> startDot s = endPos s - 1 \<and> startDot s = startPart s + 1)
         then []
         else take (nat (endPos s) - nat (startDot s)) (drop (nat (startDot s)) p))"

text \<open>
  \<^verbatim>\<open>shouldIncludeFile\<close>. The global \<^verbatim>\<open>includedExtensions\<close> is \<^verbatim>\<open>null\<close> (no
  filter) or a set of extensions; it is a parameter here.
  \<^verbatim>\<open>path.extname(filePath).toLowerCase().slice(1)\<close> drops the dot.
\<close>

definition shouldIncludeFile :: "string list option \<Rightarrow> string \<Rightarrow> bool" where
  "shouldIncludeFile includedExtensions filePath =
     (case includedExtensions of
        None \<Rightarrow> True
      | Some exts \<Rightarrow>
          (let ext = drop 1 (toLowerCase (extname filePath)) in set_has exts ext))"

text \<open>
  \<^verbatim>\<open>hasIncludedFiles\<close> and its inner \<^verbatim>\<open>checkDir\<close>. The closure variable
  \<^verbatim>\<open>hasMatchingFiles\<close> is threaded through: each function takes its value
  and returns the result of the call together with the new value. An exception
  of \<^verbatim>\<open>readdirSync\<close> or \<^verbatim>\<open>statSync\<close> leaves the function (\<open>Inl\<close>). Each
  function takes the path together with what the file system holds there.
\<close>

function checkDir ::
    "string list option \<Rightarrow> string list \<Rightarrow> fsnode \<Rightarrow> bool \<Rightarrow> fs_error + bool \<times> bool"
  and checkItems ::
    "string list option \<Rightarrow> string list \<Rightarrow> (string \<times> fsnode) list \<Rightarrow> bool
       \<Rightarrow> fs_error + bool \<times> bool"
where
  "checkDir flt currentPath node hasMatchingFiles =
     (case readdirSync currentPath node of
        Inl e \<Rightarrow> Inl e
      | Inr items \<Rightarrow> checkItems flt currentPath items hasMatchingFiles)"
| "checkItems flt currentPath [] hasMatchingFiles = Inr (hasMatchingFiles, hasMatchingFiles)"
| "checkItems flt currentPath ((item, child) # rest) hasMatchingFiles =
     (let fullPath = currentPath @ [item] in
      case statSync fullPath child of
        Inl e \<Rightarrow> Inl e
      | Inr isDirectory \<Rightarrow>
          if isDirectory then
            (case checkDir flt fullPath child hasMatchingFiles of
               Inl e \<Rightarrow> Inl e
             | Inr (found, h) \<Rightarrow>
                 if found then Inr (True, True) else checkItems flt currentPath rest h)
          else if shouldIncludeFile flt item then Inr (True, True)
          else checkItems flt currentPath rest hasMatchingFiles)"
  by pat_completeness auto

termination
proof (relation "measure (\<lambda>x. case x of
          Inl (flt, p, n, h) \<Rightarrow> 2 * size n
        | Inr (flt, p, items, h) \<Rightarrow> 2 * size_list (size_prod (\<lambda>x. 0) size) items + 1)")
  show "wf (measure (\<lambda>x. case x of
          Inl (flt, p, n, h) \<Rightarrow> 2 * size n
        | Inr (flt, p, items, h) \<Rightarrow> 2 * size_list (size_prod (\<lambda>x. 0) size) items + 1))"
    by simp
next
  fix flt :: "string list option" and currentPath :: "string list" and node :: fsnode
    and hasMatchingFiles :: bool and items
  assume "readdirSync currentPath node = Inr items"
  then show "(Inr (flt, currentPath, items, hasMatchingFiles),
              Inl (flt, currentPath, node, hasMatchingFiles))
      \<in> measure (\<lambda>x. case x of
          Inl (flt, p, n, h) \<Rightarrow> 2 * size n
        | Inr (flt, p, items, h) \<Rightarrow> 2 * size_list (size_prod (\<lambda>x. 0) size) items + 1)"
    by (cases node) auto
qed auto

definition hasIncludedFiles ::
    "string list option \<Rightarrow> string list \<Rightarrow> fsnode \<Rightarrow> fs_error + bool" where
  "hasIncludedFiles includedExtensions dirPath node =
     (case includedExtensions of
        None \<Rightarrow> Inr True
      | Some exts \<Rightarrow>
          (case checkDir includedExtensions dirPath node False of
             Inl e \<Rightarrow> Inl e
           | Inr (found, h) \<Rightarrow> Inr found))"

section \<open>The tree walker\<close>

text \<open>
  Every path the walker handles is \<^verbatim>\<open>basePath\<close> followed by the names it
  went through (\<^verbatim>\<open>path.join(dirPath, item)\<close>, the names coming from
  \<^verbatim>\<open>readdirSync\<close>), so a path is represented by the list of those names, the
  empty list being \<^verbatim>\<open>basePath\<close> itself. For such a path Node's
  \<^verbatim>\<open>path.relative(basePath, fullPath)\<close> is the names joined with
  \<^verbatim>\<open>path.sep\<close>; \<^verbatim>\<open>getRelativePath\<close> then does
  \<^verbatim>\<open>.split(path.sep).join('/')\<close>.
\<close>

definition path_relative :: "platform \<Rightarrow> string list \<Rightarrow> string" where
  "path_relative pf fullPath = join_with (path_sep pf) fullPath"

definition getRelativePath :: "platform \<Rightarrow> string list \<Rightarrow> string" where
  "getRelativePath pf fullPath =
     (let relativePath = path_relative pf fullPath in
      join_with slash (split_on (\<lambda>c. c = path_sep pf) relativePath))"

text \<open>
  One row of the worksheet: the cells \<^verbatim>\<open>level\<close>, \<^verbatim>\<open>type\<close>, \<^verbatim>\<open>name\<close>,
  \<^verbatim>\<open>path\<close> and \<^verbatim>\<open>status\<close> (fonts and the data validation of the status
  cell carry no information of their own and are left out).
\<close>

datatype row_type = Directory | FileRow

record entry =
  level :: nat
  rtype :: row_type
  name :: string
  path :: string
  status :: string

text \<open>
  The state the walker changes: the data rows of the worksheet in row order,
  the global \<^verbatim>\<open>rowIndex\<close>, and the console.
\<close>

record walk_state =
  rows :: "entry list"
  rowIndex :: nat
  console_out :: "console list"

definition make_entry :: "nat \<Rightarrow> string \<Rightarrow> string \<Rightarrow> bool \<Rightarrow> entry" where
  "make_entry lvl item relativePath isDirectory =
     \<lparr>level = lvl,
      rtype = (if isDirectory then Directory else FileRow),
      name = repeat_indent lvl @ item,
      path = relativePath @ (if isDirectory then ''/'' else []),
      status = ''pending''\<rparr>"

definition add_row :: "nat \<Rightarrow> string \<Rightarrow> string \<Rightarrow> bool \<Rightarrow> walk_state \<Rightarrow> walk_state" where
  "add_row lvl item relativePath isDirectory st =
     st\<lparr>rows := rows st @ [make_entry lvl item relativePath isDirectory],
        rowIndex := rowIndex st + 1\<rparr>"

text \<open>
  \<^verbatim>\<open>console.error(`Error processing directory ${dirPath}:`, error)\<close>: the
  line holds the path of the directory whose call caught the exception and
  the \<^verbatim>\<open>Error\<close> object caught, which names the path of the failed call.
\<close>

definition log_error :: "string list \<Rightarrow> fs_error \<Rightarrow> walk_state \<Rightarrow> walk_state" where
  "log_error dirPath e st =
     st\<lparr>console_out := console_out st @ [ErrorProcessingDirectory dirPath e]\<rparr>"

text \<open>
  \<^verbatim>\<open>processDirectory\<close>. The body of its \<^verbatim>\<open>for\<close> loop is \<open>processItems\<close>, which
  returns the exception that left the loop, if any, with the state reached;
  \<open>processDirectory\<close> is the \<^verbatim>\<open>try\<close> around it and logs what it catches with
  its own \<^verbatim>\<open>dirPath\<close>.
\<close>

function processDirectory ::
    "platform \<Rightarrow> string list option \<Rightarrow> string list \<Rightarrow> string list \<Rightarrow> fsnode \<Rightarrow> nat
       \<Rightarrow> walk_state \<Rightarrow> walk_state"
  and processItems ::
    "platform \<Rightarrow> string list option \<Rightarrow> string list \<Rightarrow> string list
       \<Rightarrow> (string \<times> fsnode) list \<Rightarrow> nat \<Rightarrow> walk_state \<Rightarrow> fs_error option \<times> walk_state"
where
  "processDirectory pf flt excludeList dirPath node lvl st =
     (case readdirSync dirPath node of
        Inl e \<Rightarrow> log_error dirPath e st
      | Inr items \<Rightarrow>
          (case hasIncludedFiles flt dirPath node of
             Inl e \<Rightarrow> log_error dirPath e st
           | Inr dirHasIncludedFiles \<Rightarrow>
               if \<not> dirHasIncludedFiles then st
               else (case processItems pf flt excludeList dirPath items lvl st of
                       (None, st') \<Rightarrow> st'
                     | (Some e, st') \<Rightarrow> log_error dirPath e st')))"
| "processItems pf flt excludeList dirPath [] lvl st = (None, st)"
| "processItems pf flt excludeList dirPath ((item, child) # rest) lvl st =
     (let fullPath = dirPath @ [item];
          relativePath = getRelativePath pf fullPath
      in
        if shouldExclude pf relativePath excludeList then
          processItems pf flt excludeList dirPath rest lvl st
        else
          (case statSync fullPath child of
             Inl e \<Rightarrow> (Some e, st)
           | Inr isDirectory \<Rightarrow>
               if \<not> isDirectory \<and> \<not> shouldIncludeFile flt item then
                 processItems pf flt excludeList dirPath rest lvl st
               else
                 (case (if isDirectory then hasIncludedFiles flt fullPath child
                        else Inr True) of
                    Inl e \<Rightarrow> (Some e, st)
                  | Inr nonEmpty \<Rightarrow>
                      if isDirectory \<and> \<not> nonEmpty then
                        processItems pf flt excludeList dirPath rest lvl st
                      else
                        (let st1 = add_row lvl item relativePath isDirectory st;
                             st2 = (if isDirectory then
                                      processDirectory pf flt excludeList fullPath child
                                        (lvl + 1) st1
                                    else st1)
                         in processItems pf flt excludeList dirPath rest lvl st2))))"
  by pat_completeness auto

termination
proof (relation "measure (\<lambda>x. case x of
          Inl (pf, flt, ex, d, n, l, st) \<Rightarrow> 2 * size n
        | Inr (pf, flt, ex, d, items, l, st) \<Rightarrow>
            2 * size_list (size_prod (\<lambda>x. 0) size) items + 1)")
  show "wf (measure (\<lambda>x. case x of
          Inl (pf, flt, ex, d, n, l, st) \<Rightarrow> 2 * size n
        | Inr (pf, flt, ex, d, items, l, st) \<Rightarrow>
            2 * size_list (size_prod (\<lambda>x. 0) size) items + 1))"
    by simp
next
  fix pf :: platform and flt :: "string list option" and excludeList dirPath :: "string list"
    and node :: fsnode and lvl :: nat and st :: walk_state and items
  assume "readdirSync dirPath node = Inr items"
  then show "(Inr (pf, flt, excludeList, dirPath, items, lvl, st),
              Inl (pf, flt, excludeList, dirPath, node, lvl, st))
      \<in> measure (\<lambda>x. case x of
          Inl (pf, flt, ex, d, n, l, st) \<Rightarrow> 2 * size n
        | Inr (pf, flt, ex, d, items, l, st) \<Rightarrow>
            2 * size_list (size_prod (\<lambda>x. 0) size) items + 1)"
    by (cases node) auto
qed auto

text \<open>
  \<^verbatim>\<open>generateExcel\<close>. \<open>base\<close> is what the file system holds at
  \<^verbatim>\<open>path.resolve(argv.path)\<close>. Writing the workbook is the work of the
  ExcelJS library: \<open>writable\<close> says whether \<^verbatim>\<open>workbook.xlsx.writeFile\<close>
  succeeds. The result of a run is the file written, if any, and the console.
\<close>

record report =
  data_rows :: "entry list"
  autoFilter_to_row :: nat

record run =
  output_file :: "report option"
  console_log :: "console list"

definition generateExcel :: "platform \<Rightarrow> string list option \<Rightarrow> fsnode \<Rightarrow> bool \<Rightarrow> run" where
  "generateExcel pf flt base writable =
     (let (excludeList, logged) = getExclusionList pf base;
          out = logged @ [ExcludedItems excludeList] @
                (case flt of None \<Rightarrow> [] | Some exts \<Rightarrow> [IncludingOnly exts]);
          st = processDirectory pf flt excludeList [] base 0
                 \<lparr>rows = [], rowIndex = 2, console_out = out\<rparr>
      in if writable then
           \<lparr>output_file = Some \<lparr>data_rows = rows st, autoFilter_to_row = rowIndex st - 1\<rparr>,
            console_log = console_out st @ [GeneratedSuccessfully]\<rparr>
         else
           \<lparr>output_file = None, console_log = console_out st @ [ErrorGeneratingExcel]\<rparr>)"

section \<open>Notions of the specification\<close>

text \<open>
  Two strings differ only in which separator they use when they agree after
  every backslash is replaced by a slash.
\<close>

definition unify_separators :: "string \<Rightarrow> string" where
  "unify_separators p = map (\<lambda>c. if c = bslash then slash else c) p"

text \<open>The non-empty segments of a string between separators.\<close>

definition segments :: "string \<Rightarrow> string list" where
  "segments p = filter (\<lambda>s. s \<noteq> []) (split_on is_separator p)"

text \<open>
  The segments of a \<^verbatim>\<open>path\<close> cell (joined with forward slashes, a directory
  with a trailing slash), its parent path, and the cell without the trailing
  slash.
\<close>

definition path_segments :: "string \<Rightarrow> string list" where
  "path_segments p = filter (\<lambda>s. s \<noteq> []) (split_on (\<lambda>c. c = slash) p)"

definition parent_path :: "string \<Rightarrow> string" where
  "parent_path p = join_with slash (butlast (path_segments p))"

definition strip_slash :: "string \<Rightarrow> string" where
  "strip_slash p = (if endsWith p ''/'' then butlast p else p)"

text \<open>
  The text after the last dot of a name (empty when there is no dot), and the
  names whose only dot is their first character.
\<close>

definition after_last_dot :: "string \<Rightarrow> string" where
  "after_last_dot f =
     (if CHR ''.'' \<in> set f then rev (takeWhile (\<lambda>c. c \<noteq> CHR ''.'') (rev f)) else [])"

definition only_leading_dot :: "string \<Rightarrow> bool" where
  "only_leading_dot f = (case f of [] \<Rightarrow> False | c # cs \<Rightarrow> c = CHR ''.'' \<and> CHR ''.'' \<notin> set cs)"

text \<open>
  The names a directory listing can hold: not empty, without a slash and
  without the platform's separator. A file system whose names are all of this
  kind:
\<close>

definition valid_name :: "platform \<Rightarrow> string \<Rightarrow> bool" where
  "valid_name pf n = (n \<noteq> [] \<and> slash \<notin> set n \<and> path_sep pf \<notin> set n)"

fun valid_fs :: "platform \<Rightarrow> fsnode \<Rightarrow> bool"
  and valid_items :: "platform \<Rightarrow> (string \<times> fsnode) list \<Rightarrow> bool"
where
  "valid_fs pf (Dir items) = valid_items pf items"
| "valid_fs pf (File c) = True"
| "valid_fs pf Unreadable = True"
| "valid_fs pf Missing = True"
| "valid_items pf [] = True"
| "valid_items pf ((item, child) # rest) =
     (valid_name pf item \<and> valid_fs pf child \<and> valid_items pf rest)"

text \<open>
  Pre-order. The rows a run emits are compared with a tree of rows: a row with
  the rows emitted below it. The pre-order sequence of a tree is its root
  followed by the pre-order sequences of its subtrees from left to right.
\<close>

datatype etree = ENode entry "etree list"

fun root :: "etree \<Rightarrow> entry" where
  "root (ENode e ts) = e"

fun preorder :: "etree \<Rightarrow> entry list" where
  "preorder (ENode e ts) = e # concat (map preorder ts)"

text \<open>
  The tree of the rows to emit, following the steps of the specification's
  algorithm: the children of a directory that are neither excluded, nor files
  failing the extension filter, nor directories without an included file, each
  with the tree of its own children, in listing order; the listing is
  abandoned at the first child whose \<^verbatim>\<open>stat\<close> or probe throws.
\<close>

fun dir_forest ::
    "platform \<Rightarrow> string list option \<Rightarrow> string list \<Rightarrow> string list \<Rightarrow> fsnode \<Rightarrow> nat
       \<Rightarrow> etree list"
  and items_forest ::
    "platform \<Rightarrow> string list option \<Rightarrow> string list \<Rightarrow> string list
       \<Rightarrow> (string \<times> fsnode) list \<Rightarrow> nat \<Rightarrow> etree list"
where
  "dir_forest pf flt ex d (Dir items) lvl =
     (if hasIncludedFiles flt d (Dir items) = Inr True then items_forest pf flt ex d items lvl
      else [])"
| "dir_forest pf flt ex d (File c) lvl = []"
| "dir_forest pf flt ex d Unreadable lvl = []"
| "dir_forest pf flt ex d Missing lvl = []"
| "items_forest pf flt ex d [] lvl = []"
| "items_forest pf flt ex d ((item, child) # rest) lvl =
     (let rel = getRelativePath pf (d @ [item]) in
      if shouldExclude pf rel ex then items_forest pf flt ex d rest lvl
      else
        (case statSync (d @ [item]) child of
           Inl e \<Rightarrow> []
         | Inr isDirectory \<Rightarrow>
             if isDirectory then
               (case hasIncludedFiles flt (d @ [item]) child of
                  Inl e \<Rightarrow> []
                | Inr nonEmpty \<Rightarrow>
                    if nonEmpty then
                      ENode (make_entry lvl item rel True)
                            (dir_forest pf flt ex (d @ [item]) child (lvl + 1))
                      # items_forest pf flt ex d rest lvl
                    else items_forest pf flt ex d rest lvl)
             else if shouldIncludeFile flt item then
               ENode (make_entry lvl item rel False) [] # items_forest pf flt ex d rest lvl
             else items_forest pf flt ex d rest lvl))"

text \<open>The row an item of a listing would get, were it emitted.\<close>

definition item_entry ::
    "platform \<Rightarrow> string list \<Rightarrow> nat \<Rightarrow> string \<times> fsnode \<Rightarrow> entry" where
  "item_entry pf d lvl x =
     make_entry lvl (fst x) (getRelativePath pf (d @ [fst x]))
       (statSync (d @ [fst x]) (snd x) = Inr True)"

text \<open>
  A row is the parent of another when it is a directory row one level up whose
  path, without the trailing slash, is the parent path of the other.
\<close>

definition is_parent_row :: "entry \<Rightarrow> entry \<Rightarrow> bool" where
  "is_parent_row p e =
     (rtype p = Directory \<and> level p + 1 = level e \<and>
      strip_slash (path p) = parent_path (path e))"

text \<open>
  The rows emitted below the directory with the names \<open>d\<close>, itself at depth
  \<open>lvl\<close>: each row has as many path segments as its level says and is named
  by its last segment after the indentation; a row at level \<open>lvl\<close> has the
  directory as parent path, a deeper row has its parent row before it.
\<close>

definition rows_below :: "nat \<Rightarrow> string list \<Rightarrow> entry list \<Rightarrow> bool" where
  "rows_below lvl d rs =
     (\<forall>i<length rs.
        level (rs ! i) + 1 = length (path_segments (path (rs ! i))) \<and>
        name (rs ! i) = repeat_indent (level (rs ! i)) @ last (path_segments (path (rs ! i))) \<and>
        ((level (rs ! i) = lvl \<and> parent_path (path (rs ! i)) = join_with slash d) \<or>
         (lvl < level (rs ! i) \<and> (\<exists>j<i. is_parent_row (rs ! j) (rs ! i)))))"






section \<open>Splitting and joining\<close>

lemma split_on_nonempty: "split_on P s \<noteq> []"
  by (induction s) (auto split: list.splits)

lemma split_on_no_sep: "\<forall>w \<in> set (split_on P s). \<forall>c \<in> set w. \<not> P c"
  by (induction s) (auto split: if_splits list.splits)

lemma split_on_append_sep:
  "P c \<Longrightarrow> \<forall>ch \<in> set x. \<not> P ch \<Longrightarrow> split_on P (x @ c # rest) = x # split_on P rest"
  by (induction x) auto

lemma split_on_plain: "\<forall>ch \<in> set x. \<not> P ch \<Longrightarrow> split_on P x = [x]"
  by (induction x) auto

lemma split_on_join:
  "P c \<Longrightarrow> xs \<noteq> [] \<Longrightarrow> \<forall>x \<in> set xs. \<forall>ch \<in> set x. \<not> P ch \<Longrightarrow>
   split_on P (join_with c xs) = xs"
proof (induction c xs rule: join_with.induct)
  case (1 s)
  then show ?case by simp
next
  case (2 s x)
  then show ?case by (simp add: split_on_plain)
next
  case (3 s x y ys)
  then show ?case by (simp add: split_on_append_sep)
qed

lemma is_separator_path_sep: "is_separator (path_sep pf)"
  by (cases pf) (simp_all add: is_separator_def)

lemma segments_no_sep:
  "\<forall>x \<in> set (segments p). x \<noteq> [] \<and> (\<forall>ch \<in> set x. \<not> is_separator ch)"
  using split_on_no_sep [of is_separator p] by (auto simp: segments_def)

lemma segments_join:
  assumes "\<forall>x \<in> set xs. x \<noteq> [] \<and> (\<forall>ch \<in> set x. \<not> is_separator ch)"
  shows "segments (join_with (path_sep pf) xs) = xs"
proof (cases "xs = []")
  case True
  then show ?thesis by (simp add: segments_def)
next
  case False
  then have "split_on is_separator (join_with (path_sep pf) xs) = xs"
    using assms by (simp add: split_on_join is_separator_path_sep)
  then show ?thesis using assms by (simp add: segments_def filter_id_conv)
qed

lemma normalizePath_segments: "normalizePath pf p = join_with (path_sep pf) (segments p)"
  by (simp add: normalizePath_def segments_def)

lemma segments_normalizePath: "segments (normalizePath pf x) = segments x"
  unfolding normalizePath_segments by (rule segments_join) (rule segments_no_sep)

lemma normalizePath_idem: "normalizePath pf (normalizePath pf x) = normalizePath pf x"
  by (simp add: normalizePath_segments segments_normalizePath [unfolded normalizePath_segments])

lemma split_on_unify:
  "split_on is_separator (unify_separators x) = split_on is_separator x"
  by (induction x) (auto simp: unify_separators_def is_separator_def split: list.splits)

lemma normalizePath_unify: "normalizePath pf (unify_separators x) = normalizePath pf x"
  by (simp add: normalizePath_def split_on_unify)

lemma split_on_append_sep2:
  "P c \<Longrightarrow> split_on P (a @ c # b) = split_on P a @ split_on P b"
  by (induction a) (auto split: list.splits simp: split_on_nonempty)

lemma segments_append_sep:
  "is_separator c \<Longrightarrow> segments (a @ c # b) = segments a @ segments b"
  by (simp add: segments_def split_on_append_sep2)

lemma join_with_append:
  "xs \<noteq> [] \<Longrightarrow> ys \<noteq> [] \<Longrightarrow> join_with c (xs @ ys) = join_with c xs @ c # join_with c ys"
proof (induction c xs rule: join_with.induct)
  case (2 s x)
  then show ?case by (cases ys) auto
qed auto

lemma join_with_extend_last:
  "join_with c (xs @ [a @ b] @ ys)
     = join_with c (xs @ [a]) @ b @ (if ys = [] then [] else c # join_with c ys)"
proof (induction c xs rule: join_with.induct)
  case (1 s)
  then show ?case by (cases ys) auto
next
  case (2 s x)
  then show ?case by (cases ys) auto
next
  case (3 s x y ys)
  then show ?case by auto
qed

lemma split_on_append:
  "split_on P (a @ b) =
     butlast (split_on P a) @ [last (split_on P a) @ hd (split_on P b)] @ tl (split_on P b)"
proof (induction a)
  case Nil
  then show ?case using split_on_nonempty [of P b] by (cases "split_on P b") auto
next
  case (Cons x a)
  then show ?case
    using split_on_nonempty [of P a] split_on_nonempty [of P "a @ b"]
    by (cases "split_on P a"; cases "split_on P (a @ b)") (auto split: if_splits)
qed

lemma split_on_hd: "\<not> P c \<Longrightarrow> \<exists>w ws. split_on P (c # y) = (c # w) # ws"
  using split_on_nonempty [of P y] by (cases "split_on P y") auto

lemma normalized_split:
  assumes "normalizePath pf d = d" "d \<noteq> []"
  shows "split_on is_separator d = segments d" "segments d \<noteq> []"
proof -
  have d: "d = join_with (path_sep pf) (segments d)"
    using assms(1) by (simp add: normalizePath_segments)
  show ne: "segments d \<noteq> []" using d assms(2) by auto
  have "split_on is_separator (join_with (path_sep pf) (segments d)) = segments d"
    using ne segments_no_sep [of d] by (intro split_on_join is_separator_path_sep) auto
  then show "split_on is_separator d = segments d" using d by simp
qed



lemma normalizePath_extend:
  assumes "normalizePath pf d = d" "d \<noteq> []" "\<not> is_separator c"
  shows "\<exists>t. normalizePath pf (d @ c # y) = d @ c # t"
proof -
  obtain w ws where y: "split_on is_separator (c # y) = (c # w) # ws"
    using split_on_hd [of is_separator c y] assms(3) by blast
  have sp: "split_on is_separator d = segments d" and ne: "segments d \<noteq> []"
    using normalized_split [OF assms(1,2)] by auto
  have "split_on is_separator (d @ c # y) =
        butlast (segments d) @ [last (segments d) @ c # w] @ ws"
    unfolding split_on_append [of is_separator d "c # y"] sp y by simp
  then have "segments (d @ c # y) =
        butlast (segments d) @ [last (segments d) @ c # w] @ filter (\<lambda>s. s \<noteq> []) ws"
    using segments_no_sep [of d] by (auto simp: segments_def [of "d @ c # y"] filter_id_conv dest: in_set_butlastD)
  then have "normalizePath pf (d @ c # y) =
        join_with (path_sep pf) (butlast (segments d) @ [last (segments d)]) @ (c # w) @
          (if filter (\<lambda>s. s \<noteq> []) ws = [] then []
           else path_sep pf # join_with (path_sep pf) (filter (\<lambda>s. s \<noteq> []) ws))"
    by (simp only: normalizePath_segments join_with_extend_last)
  moreover have "join_with (path_sep pf) (butlast (segments d) @ [last (segments d)]) = d"
    using ne assms(1) by (simp add: normalizePath_segments)
  ultimately show ?thesis by auto
qed

section \<open>Normalisation\<close>

text \<open>
  Claim C9. \<^verbatim>\<open>normalizePath\<close> is idempotent on every string, and it is
  separator-agnostic: two strings that differ only in which of the two
  separators stands at each separator position have the same normal form, as
  \<^verbatim>\<open>a/b\c\<close> and \<^verbatim>\<open>a\b/c\<close> do. Both hold on either platform.
\<close>

theorem normalizePath_idempotent_separator_agnostic:
  "normalizePath pf (normalizePath pf x) = normalizePath pf x \<and>
   (unify_separators x = unify_separators y \<longrightarrow> normalizePath pf x = normalizePath pf y) \<and>
   normalizePath pf (''a/b'' @ [bslash] @ ''c'') = normalizePath pf (''a'' @ [bslash] @ ''b/c'')"
proof (intro conjI impI)
  show "normalizePath pf (normalizePath pf x) = normalizePath pf x"
    by (rule normalizePath_idem)
next
  assume "unify_separators x = unify_separators y"
  then show "normalizePath pf x = normalizePath pf y"
    by (metis normalizePath_unify)
next
  have "unify_separators (''a/b'' @ [bslash] @ ''c'')
        = unify_separators (''a'' @ [bslash] @ ''b/c'')"
    by (simp add: unify_separators_def)
  then show "normalizePath pf (''a/b'' @ [bslash] @ ''c'')
             = normalizePath pf (''a'' @ [bslash] @ ''b/c'')"
    by (metis normalizePath_unify)
qed

theorem normalizePath_idempotent_separator_agnostic_witness:
  "unify_separators (''x/y'' @ [bslash]) = unify_separators (''x'' @ [bslash] @ ''y/'') \<and>
   normalizePath Win32 (''x/y'' @ [bslash]) = normalizePath Win32 (''x'' @ [bslash] @ ''y/'') \<and>
   normalizePath Win32 (''x/y'' @ [bslash]) = ''x'' @ [bslash] @ ''y''"
proof -
  have h: "unify_separators (''x/y'' @ [bslash]) = unify_separators (''x'' @ [bslash] @ ''y/'')"
    by (simp add: unify_separators_def)
  have v: "normalizePath Win32 (''x/y'' @ [bslash]) = ''x'' @ [bslash] @ ''y''"
    by (simp add: normalizePath_def is_separator_def)
  from normalizePath_idempotent_separator_agnostic
         [of Win32 "''x/y'' @ [bslash]" "''x'' @ [bslash] @ ''y/''"] h v
  show ?thesis by blast
qed

section \<open>The exclusion list\<close>







lemma endsWith_snoc: "endsWith (d @ [c]) [c]"
  by (simp add: endsWith_def)

lemma shouldExclude_directory_entry:
  assumes e: "d @ [path_sep pf] \<in> set ex"
      and n: "normalizePath pf p = d \<or> startsWith (normalizePath pf p) (d @ [path_sep pf])"
  shows "shouldExclude pf p ex"
proof -
  have "list_ex (\<lambda>excludePath.
             endsWith excludePath [path_sep pf] \<and>
             (let excludeDir = butlast excludePath in
              normalizePath pf p = excludeDir \<or>
              startsWith (normalizePath pf p) (excludeDir @ [path_sep pf]))) ex"
    unfolding list_ex_iff using e n
    by (intro bexI [of _ "d @ [path_sep pf]"]) (simp_all add: endsWith_snoc)
  then show ?thesis by (simp add: shouldExclude_def Let_def)
qed

lemma normalizePath_descendant:
  assumes "normalizePath pf d = d" "d \<noteq> []"
  shows "normalizePath pf (d @ path_sep pf # sfx) = d \<or>
         startsWith (normalizePath pf (d @ path_sep pf # sfx)) (d @ [path_sep pf])"
proof -
  have ne: "segments d \<noteq> []" using normalized_split [OF assms] by simp
  have seg: "segments (d @ path_sep pf # sfx) = segments d @ segments sfx"
    by (simp add: segments_append_sep is_separator_path_sep)
  have d: "join_with (path_sep pf) (segments d) = d"
    using assms(1) by (simp add: normalizePath_segments)
  show ?thesis
  proof (cases "segments sfx = []")
    case True
    then show ?thesis by (simp add: normalizePath_segments seg d)
  next
    case False
    then have "normalizePath pf (d @ path_sep pf # sfx)
               = d @ path_sep pf # join_with (path_sep pf) (segments sfx)"
      by (simp add: normalizePath_segments seg join_with_append ne d)
    then show ?thesis by (simp add: startsWith_def)
  qed
qed

lemma sibling_not_matched:
  assumes "normalizePath pf d = d" "d \<noteq> []" "y \<noteq> []" "\<not> is_separator (hd y)"
  shows "normalizePath pf (d @ y) \<noteq> d @ [path_sep pf]"
    and "normalizePath pf (d @ y) \<noteq> d"
    and "\<not> startsWith (normalizePath pf (d @ y)) (d @ [path_sep pf])"
proof -
  obtain c y' where y: "y = c # y'" and c: "\<not> is_separator c"
    using assms(3,4) by (cases y) auto
  obtain t where t: "normalizePath pf (d @ y) = d @ c # t"
    using normalizePath_extend [OF assms(1,2) c, of y'] y by auto
  have cs: "c \<noteq> path_sep pf" using c is_separator_path_sep [of pf] by auto
  show "normalizePath pf (d @ y) \<noteq> d" by (simp add: t)
  show "\<not> startsWith (normalizePath pf (d @ y)) (d @ [path_sep pf])"
    using cs by (simp add: t startsWith_def)
  show "normalizePath pf (d @ y) \<noteq> d @ [path_sep pf]"
    using cs by (simp add: t)
qed

text \<open>
  Claim C6, as the code has it. Let \<open>d\<close> be a normalised, non-empty path and
  let the exclusion set hold the entry \<open>d\<close> followed by \<^verbatim>\<open>path.sep\<close>. Then
  \<^verbatim>\<open>shouldExclude\<close> is true for \<open>d\<close> itself and for \<open>d\<close>, the separator and
  any suffix. For a path that extends \<open>d\<close> by a non-empty text not starting
  with a separator, the entry has no effect: the answer is the one the set
  without the entry gives, and false for the set holding the entry alone.
  Neither \<^verbatim>\<open>src/lib\<close> nor \<^verbatim>\<open>src/lib/\<close> matches \<^verbatim>\<open>src/library\<close>.
\<close>

theorem shouldExclude_directory_entry_segments:
  assumes "normalizePath pf d = d" and "d \<noteq> []" and "d @ [path_sep pf] \<in> set ex"
  shows "shouldExclude pf d ex \<and>
         shouldExclude pf (d @ [path_sep pf] @ sfx) ex \<and>
         (y \<noteq> [] \<and> \<not> is_separator (hd y) \<longrightarrow>
            shouldExclude pf (d @ y) ex = shouldExclude pf (d @ y) (removeAll (d @ [path_sep pf]) ex) \<and>
            shouldExclude pf (d @ y) [d @ [path_sep pf]] = False) \<and>
         shouldExclude Posix ''src/library'' [''src/lib''] = False \<and>
         shouldExclude Posix ''src/library'' [''src/lib/''] = False"
proof (intro conjI impI)
  show "shouldExclude pf d ex"
    using assms by (intro shouldExclude_directory_entry [of d]) auto
  show "shouldExclude pf (d @ [path_sep pf] @ sfx) ex"
    using assms normalizePath_descendant [OF assms(1,2), of sfx]
    by (intro shouldExclude_directory_entry [of d]) auto
  show "shouldExclude Posix ''src/library'' [''src/lib''] = False" by code_simp
  show "shouldExclude Posix ''src/library'' [''src/lib/''] = False" by code_simp
next
  assume y: "y \<noteq> [] \<and> \<not> is_separator (hd y)"
  note nm = sibling_not_matched [OF assms(1,2), of y]
  have 1: "normalizePath pf (d @ y) \<noteq> d @ [path_sep pf]" using y nm(1) by simp
  have 2: "normalizePath pf (d @ y) \<noteq> d" using y nm(2) by simp
  have 3: "\<not> startsWith (normalizePath pf (d @ y)) (d @ [path_sep pf])" using y nm(3) by simp
  show "shouldExclude pf (d @ y) [d @ [path_sep pf]] = False"
    using 1 2 3 by (simp add: shouldExclude_def set_has_def Let_def)
  show "shouldExclude pf (d @ y) ex = shouldExclude pf (d @ y) (removeAll (d @ [path_sep pf]) ex)"
    using 1 2 3 by (auto simp: shouldExclude_def set_has_def Let_def list_ex_iff)
qed

theorem shouldExclude_directory_entry_segments_witness:
  "normalizePath Posix ''src/lib'' = ''src/lib'' \<and> ''src/lib'' \<noteq> [] \<and>
   ''src/lib'' @ [path_sep Posix] \<in> set [''x'', ''src/lib/''] \<and>
   ''rary/a.js'' \<noteq> [] \<and> \<not> is_separator (hd ''rary/a.js'') \<and>
   shouldExclude Posix ''src/lib'' [''x'', ''src/lib/''] \<and>
   shouldExclude Posix (''src/lib'' @ [path_sep Posix] @ ''deep/a.js'') [''x'', ''src/lib/''] \<and>
   shouldExclude Posix (''src/lib'' @ ''rary/a.js'') [''src/lib'' @ [path_sep Posix]] = False"
proof -
  have h1: "normalizePath Posix ''src/lib'' = ''src/lib''" by code_simp
  have h2: "''src/lib'' \<noteq> []" by simp
  have h3: "''src/lib'' @ [path_sep Posix] \<in> set [''x'', ''src/lib/'']" by simp
  have h4: "''rary/a.js'' \<noteq> [] \<and> \<not> is_separator (hd ''rary/a.js'')"
    by (simp add: is_separator_def)
  from shouldExclude_directory_entry_segments [OF h1 h2 h3, of "''deep/a.js''" "''rary/a.js''"]
    h1 h2 h3 h4
  show ?thesis by blast
qed

text \<open>
  The claim as stated, for every set holding an entry that ends in the
  separator, fails in three ways: for the entry \<^verbatim>\<open>/\<close>, whose stripped form
  is empty, the descendant \<^verbatim>\<open>/x\<close> is not excluded; for an entry whose
  stripped form \<^verbatim>\<open>a//b\<close> is not normalised, the stripped form itself is not
  excluded; and a sibling that the set also holds as an entry of its own is
  excluded.
\<close>

theorem shouldExclude_directory_entry_counterexample:
  "shouldExclude Posix ''/x'' [''/''] = False \<and>
   shouldExclude Posix ''a//b'' [''a//b/''] = False \<and>
   shouldExclude Posix ''src/library'' [''src/lib/'', ''src/library''] = True"
  by code_simp

section \<open>The extension filter\<close>

text \<open>
  The scan of \<^verbatim>\<open>path.extname\<close> over a name without a slash, in two phases:
  up to the last dot, and from there to the first character.
\<close>

lemma scan_after_dot:
  "slash \<notin> set p \<Longrightarrow> k \<le> length p \<Longrightarrow> startDot s \<noteq> - 1 \<Longrightarrow> endPos s \<noteq> - 1 \<Longrightarrow>
   extname_scan p k s =
     (if k = 0 then s else s\<lparr>preDotState := (if p ! 0 = CHR ''.'' then 1 else - 1)\<rparr>)"
proof (induction k arbitrary: s)
  case 0
  then show ?case by simp
next
  case (Suc k)
  then have ns: "p ! k \<noteq> slash" by (metis Suc_le_lessD nth_mem)
  let ?s2 = "if p ! k = CHR ''.'' then s\<lparr>preDotState := 1\<rparr> else s\<lparr>preDotState := - 1\<rparr>"
  have same: "(if preDotState s \<noteq> 1 then s\<lparr>preDotState := 1\<rparr> else s) = s\<lparr>preDotState := 1\<rparr>"
    by (cases s) auto
  have step: "extname_scan p (Suc k) s = extname_scan p k ?s2"
    using ns Suc.prems(3,4) by (simp add: Let_def same)
  have "extname_scan p k ?s2 =
     (if k = 0 then ?s2 else ?s2\<lparr>preDotState := (if p ! 0 = CHR ''.'' then 1 else - 1)\<rparr>)"
    using Suc.prems by (intro Suc.IH) auto
  then show ?case unfolding step by (cases "k = 0") auto
qed

lemma scan_before_dot:
  "slash \<notin> set p \<Longrightarrow> k \<le> length p \<Longrightarrow> m \<le> k \<Longrightarrow> startDot s = - 1 \<Longrightarrow>
   \<forall>i. m \<le> i \<and> i < k \<longrightarrow> p ! i \<noteq> CHR ''.'' \<Longrightarrow>
   extname_scan p k s =
     extname_scan p m (if k = m then s
                       else if endPos s = - 1 then s\<lparr>endPos := int k, matchedSlash := False\<rparr>
                       else s)"
proof (induction k arbitrary: s)
  case 0
  then show ?case by simp
next
  case (Suc k)
  show ?case
  proof (cases "m = Suc k")
    case True
    then show ?thesis by simp
  next
    case False
    then have mk: "m \<le> k" using Suc.prems(3) by simp
    have ns: "p ! k \<noteq> slash" using Suc.prems(1,2) by (metis Suc_le_lessD nth_mem)
    have nd: "p ! k \<noteq> CHR ''.''" using Suc.prems(5) mk by simp
    let ?s1 = "if endPos s = - 1 then s\<lparr>endPos := int k + 1, matchedSlash := False\<rparr> else s"
    have step: "extname_scan p (Suc k) s = extname_scan p k ?s1"
      using ns nd Suc.prems(4) by (simp add: Let_def)
    have "extname_scan p k ?s1 =
       extname_scan p m (if k = m then ?s1
                       else if endPos ?s1 = - 1 then ?s1\<lparr>endPos := int k, matchedSlash := False\<rparr>
                       else ?s1)"
      using Suc.prems mk by (intro Suc.IH) auto
    then show ?thesis unfolding step using False by (auto simp: add.commute)
  qed
qed

lemma scan_no_dot:
  assumes "slash \<notin> set p" "CHR ''.'' \<notin> set p"
  shows "startDot (extname_scan p (length p) scan_init) = - 1"
proof -
  have "extname_scan p (length p) scan_init =
     extname_scan p 0 (if length p = 0 then scan_init
                       else if endPos scan_init = - 1 then scan_init\<lparr>endPos := int (length p), matchedSlash := False\<rparr>
                       else scan_init)"
    using assms by (intro scan_before_dot) (auto simp: in_set_conv_nth)
  then show ?thesis by simp
qed

lemma scan_with_dot:
  assumes "slash \<notin> set a" "slash \<notin> set b" "CHR ''.'' \<notin> set b"
  shows "extname_scan (a @ CHR ''.'' # b) (length (a @ CHR ''.'' # b)) scan_init =
     \<lparr>startDot = int (length a), startPart = 0, endPos = int (length a) + 1 + int (length b),
      matchedSlash = False,
      preDotState = (if a = [] then 0 else if hd a = CHR ''.'' then 1 else - 1)\<rparr>"
proof -
  let ?p = "a @ CHR ''.'' # b"
  let ?n = "length ?p"
  let ?s0 = "if ?n = Suc (length a) then scan_init
             else if endPos scan_init = - 1 then scan_init\<lparr>endPos := int ?n, matchedSlash := False\<rparr>
             else scan_init"
  have ns: "slash \<notin> set ?p" using assms by simp
  have 1: "extname_scan ?p ?n scan_init = extname_scan ?p (Suc (length a)) ?s0"
  proof (rule scan_before_dot [OF ns])
    show "\<forall>i. Suc (length a) \<le> i \<and> i < ?n \<longrightarrow> ?p ! i \<noteq> CHR ''.''"
      using assms(3) by (auto simp: nth_append nth_Cons' in_set_conv_nth)
  qed auto
  let ?s2 = "scan_init\<lparr>endPos := int ?n, matchedSlash := False, startDot := int (length a)\<rparr>"
  have 2: "extname_scan ?p (Suc (length a)) ?s0 = extname_scan ?p (length a) ?s2"
    by (auto simp: Let_def algebra_simps)
  have 3: "extname_scan ?p (length a) ?s2 =
     (if length a = 0 then ?s2 else ?s2\<lparr>preDotState := (if ?p ! 0 = CHR ''.'' then 1 else - 1)\<rparr>)"
    using ns by (intro scan_after_dot) auto
  show ?thesis unfolding 1 2 3 by (cases a) auto
qed

lemma extname_no_dot: "slash \<notin> set p \<Longrightarrow> CHR ''.'' \<notin> set p \<Longrightarrow> extname p = []"
  by (simp add: extname_def Let_def scan_no_dot)

lemma extname_with_dot:
  assumes "slash \<notin> set a" "slash \<notin> set b" "CHR ''.'' \<notin> set b"
  shows "extname (a @ CHR ''.'' # b) =
     (if a = [] \<or> (a = ''.'' \<and> b = []) then [] else CHR ''.'' # b)"
  unfolding extname_def Let_def scan_with_dot [OF assms]
  by (cases a) (auto simp: nat_add_distrib)

lemma after_last_dot_split:
  "CHR ''.'' \<notin> set b \<Longrightarrow> after_last_dot (a @ CHR ''.'' # b) = b"
proof -
  assume b: "CHR ''.'' \<notin> set b"
  have "takeWhile (\<lambda>c. c \<noteq> CHR ''.'') (rev b @ CHR ''.'' # rev a)
        = rev b @ takeWhile (\<lambda>c. c \<noteq> CHR ''.'') (CHR ''.'' # rev a)"
    using b by (intro takeWhile_append2) auto
  then show ?thesis by (simp add: after_last_dot_def)
qed

lemma only_leading_dot_split:
  "CHR ''.'' \<notin> set b \<Longrightarrow> only_leading_dot (a @ CHR ''.'' # b) = (a = [])"
  by (cases a) (auto simp: only_leading_dot_def)

lemma extname_characterisation:
  assumes "slash \<notin> set f"
  shows "drop 1 (extname f) = (if only_leading_dot f then [] else after_last_dot f)"
proof (cases "CHR ''.'' \<in> set f")
  case False
  then show ?thesis using assms
    by (cases f) (auto simp: extname_no_dot after_last_dot_def only_leading_dot_def)
next
  case True
  then obtain a b where f: "f = a @ CHR ''.'' # b" and b: "CHR ''.'' \<notin> set b"
    by (meson split_list_last)
  with assms have "slash \<notin> set a" "slash \<notin> set b" by auto
  then show ?thesis
    unfolding f using b
    by (auto simp: extname_with_dot after_last_dot_split only_leading_dot_split)
qed

text \<open>
  Claim C4, as the code has it. With no filter every name passes. With a
  filter, a name without a slash passes exactly when the lower-cased text after
  its last dot is in the filter set, where that text counts as empty when the
  name has no dot and also when its only dot is its first character: a name
  such as \<^verbatim>\<open>.gitignore\<close> has the empty extension.
\<close>

theorem shouldIncludeFile_extension:
  "slash \<notin> set f \<Longrightarrow>
   shouldIncludeFile None f = True \<and>
   shouldIncludeFile (Some exts) f =
     (toLowerCase (if only_leading_dot f then [] else after_last_dot f) \<in> set exts)"
proof -
  assume f: "slash \<notin> set f"
  have "drop 1 (toLowerCase (extname f)) = toLowerCase (drop 1 (extname f))"
    by (simp add: toLowerCase_def drop_map)
  then show ?thesis
    using extname_characterisation [OF f]
    by (simp add: shouldIncludeFile_def set_has_def)
qed

theorem shouldIncludeFile_extension_witness:
  "slash \<notin> set ''Main.TS'' \<and>
   shouldIncludeFile None ''Main.TS'' = True \<and>
   shouldIncludeFile (Some [''js'', ''ts'']) ''Main.TS'' = True"
proof -
  have h: "slash \<notin> set ''Main.TS''" by simp
  have v: "toLowerCase (if only_leading_dot ''Main.TS'' then [] else after_last_dot ''Main.TS'')
           \<in> set [''js'', ''ts'']"
    by code_simp
  from shouldIncludeFile_extension [OF h, of "[''js'', ''ts'']"] h v
  show ?thesis by blast
qed

text \<open>
  The claim as stated takes the extension of \<^verbatim>\<open>.gitignore\<close> to be
  \<^verbatim>\<open>gitignore\<close>, the text after its last dot, and has the name pass the
  filter \<^verbatim>\<open>{"gitignore"}\<close>. The code rejects it.
\<close>

theorem shouldIncludeFile_dotfile_counterexample:
  "toLowerCase (after_last_dot ''.gitignore'') \<in> set [''gitignore''] \<and>
   \<not> shouldIncludeFile (Some [''gitignore'']) ''.gitignore''"
  by code_simp

section \<open>The walker and the tree of rows\<close>

lemma rows_log_error [simp]: "rows (log_error d e st) = rows st"
  by (simp add: log_error_def)

lemma rows_add_row [simp]:
  "rows (add_row lvl item rel isDir st) = rows st @ [make_entry lvl item rel isDir]"
  by (simp add: add_row_def)

lemma console_log_error [simp]:
  "console_out (log_error d e st) = console_out st @ [ErrorProcessingDirectory d e]"
  by (simp add: log_error_def)

lemma console_add_row [simp]: "console_out (add_row lvl item rel isDir st) = console_out st"
  by (simp add: add_row_def)

lemma rowIndex_log_error [simp]: "rowIndex (log_error d e st) = rowIndex st"
  by (simp add: log_error_def)

lemma rowIndex_add_row [simp]: "rowIndex (add_row lvl item rel isDir st) = rowIndex st + 1"
  by (simp add: add_row_def)

declare processDirectory.simps [simp del]

lemma processDirectory_listing_fails:
  "readdirSync d node = Inl e \<Longrightarrow> processDirectory pf flt ex d node lvl st = log_error d e st"
  by (simp add: processDirectory.simps)

lemma processDirectory_Dir:
  "processDirectory pf flt ex d (Dir items) lvl st =
     (case hasIncludedFiles flt d (Dir items) of
        Inl e \<Rightarrow> log_error d e st
      | Inr h \<Rightarrow>
          if \<not> h then st
          else (case processItems pf flt ex d items lvl st of
                  (None, st') \<Rightarrow> st'
                | (Some e, st') \<Rightarrow> log_error d e st'))"
  by (simp add: processDirectory.simps)

lemma rows_walk:
  "rows (processDirectory pf flt ex d node lvl st)
     = rows st @ concat (map preorder (dir_forest pf flt ex d node lvl))"
  "rows (snd (processItems pf flt ex d items lvl st))
     = rows st @ concat (map preorder (items_forest pf flt ex d items lvl))"
proof (induction pf flt ex d node lvl st and pf flt ex d items lvl st
       rule: processDirectory_processItems.induct)
  case (1 pf flt excludeList dirPath node lvl st)
  show ?case
  proof (cases node)
    case (Dir items)
    show ?thesis
    proof (cases "hasIncludedFiles flt dirPath node")
      case (Inl e)
      then show ?thesis using Dir by (simp add: processDirectory_Dir)
    next
      case (Inr b)
      show ?thesis
      proof (cases b)
        case False
        then show ?thesis using Dir Inr by (simp add: processDirectory_Dir)
      next
        case True
        have "rows (snd (processItems pf flt excludeList dirPath items lvl st)) =
              rows st @ concat (map preorder (items_forest pf flt excludeList dirPath items lvl))"
          using Dir Inr True by (intro "1.IH") auto
        then show ?thesis using Dir Inr True
          by (auto simp: processDirectory_Dir split: prod.splits option.splits)
      qed
    qed
  qed (simp_all add: processDirectory_listing_fails)
next
  case (2 pf flt excludeList dirPath lvl st)
  then show ?case by simp
next
  case (3 pf flt excludeList dirPath item child rest lvl st)
  then show ?case
    by (auto simp: Let_def split: sum.splits if_splits)
qed

section \<open>Paths, levels and names of the emitted rows\<close>

lemma split_on_snoc_sep: "P c \<Longrightarrow> split_on P (a @ [c]) = split_on P a @ [[]]"
  using split_on_append_sep2 [of P c a "[]"] by simp

lemma valid_name_sep:
  "valid_name pf n \<Longrightarrow> n \<noteq> [] \<and> (\<forall>ch \<in> set n. ch \<noteq> slash) \<and> (\<forall>ch \<in> set n. ch \<noteq> path_sep pf)"
  by (auto simp: valid_name_def)

lemma getRelativePath_valid:
  assumes "list_all (valid_name pf) segs"
  shows "getRelativePath pf segs = join_with slash segs"
proof (cases "segs = []")
  case True
  then show ?thesis by (simp add: getRelativePath_def path_relative_def)
next
  case False
  have "split_on (\<lambda>c. c = path_sep pf) (join_with (path_sep pf) segs) = segs"
    using False assms by (intro split_on_join) (auto simp: list_all_iff valid_name_def)
  then show ?thesis by (simp add: getRelativePath_def path_relative_def)
qed

lemma path_segments_join:
  assumes "list_all (valid_name pf) segs"
  shows "path_segments (join_with slash segs) = segs"
    and "path_segments (join_with slash segs @ ''/'') = segs"
proof -
  have ne: "filter (\<lambda>s. s \<noteq> []) segs = segs"
    using assms by (auto simp: list_all_iff valid_name_def filter_id_conv)
  have sp: "segs \<noteq> [] \<Longrightarrow> split_on (\<lambda>c. c = slash) (join_with slash segs) = segs"
    using assms by (intro split_on_join) (auto simp: list_all_iff valid_name_def)
  show "path_segments (join_with slash segs) = segs"
    using sp ne by (cases "segs = []") (auto simp: path_segments_def)
  show "path_segments (join_with slash segs @ ''/'') = segs"
    using sp ne by (cases "segs = []") (auto simp: path_segments_def split_on_snoc_sep)
qed

lemma strip_slash_dir: "strip_slash (p @ ''/'') = p"
  by (simp add: strip_slash_def endsWith_def)

lemma make_entry_fields [simp]:
  "level (make_entry lvl item rel isDir) = lvl"
  "name (make_entry lvl item rel isDir) = repeat_indent lvl @ item"
  "path (make_entry lvl item rel isDir) = rel @ (if isDir then ''/'' else [])"
  "rtype (make_entry lvl item rel isDir) = (if isDir then Directory else FileRow)"
  "status (make_entry lvl item rel isDir) = ''pending''"
  by (simp_all add: make_entry_def)

lemma rows_below_Nil [simp]: "rows_below lvl d []"
  by (simp add: rows_below_def)

lemma rows_below_append:
  assumes "rows_below lvl d xs" "rows_below lvl d ys"
  shows "rows_below lvl d (xs @ ys)"
  unfolding rows_below_def
proof (intro allI impI)
  fix i assume i: "i < length (xs @ ys)"
  show "level ((xs @ ys) ! i) + 1 = length (path_segments (path ((xs @ ys) ! i))) \<and>
        name ((xs @ ys) ! i) = repeat_indent (level ((xs @ ys) ! i)) @ last (path_segments (path ((xs @ ys) ! i))) \<and>
        ((level ((xs @ ys) ! i) = lvl \<and> parent_path (path ((xs @ ys) ! i)) = join_with slash d) \<or>
         (lvl < level ((xs @ ys) ! i) \<and> (\<exists>j<i. is_parent_row ((xs @ ys) ! j) ((xs @ ys) ! i))))"
  proof (cases "i < length xs")
    case True
    then have e: "(xs @ ys) ! i = xs ! i" by (simp add: nth_append)
    have "\<And>j. j < i \<Longrightarrow> (xs @ ys) ! j = xs ! j" using True by (simp add: nth_append)
    then show ?thesis using assms(1) True unfolding rows_below_def e by metis
  next
    case False
    let ?k = "i - length xs"
    have k: "?k < length ys" using i False by simp
    have e: "(xs @ ys) ! i = ys ! ?k" using False by (simp add: nth_append)
    have sh: "\<And>j. j < ?k \<Longrightarrow> j + length xs < i \<and> (xs @ ys) ! (j + length xs) = ys ! j"
      using False by (auto simp: nth_append)
    from assms(2) k have
      "level (ys ! ?k) + 1 = length (path_segments (path (ys ! ?k))) \<and>
        name (ys ! ?k) = repeat_indent (level (ys ! ?k)) @ last (path_segments (path (ys ! ?k))) \<and>
        ((level (ys ! ?k) = lvl \<and> parent_path (path (ys ! ?k)) = join_with slash d) \<or>
         (lvl < level (ys ! ?k) \<and> (\<exists>j<?k. is_parent_row (ys ! j) (ys ! ?k))))"
      unfolding rows_below_def by blast
    then show ?thesis unfolding e using sh by metis
  qed
qed

lemma rows_below_node:
  assumes v: "list_all (valid_name pf) (d @ [item])"
      and l: "length d = lvl"
      and b: "rows_below (lvl + 1) (d @ [item]) block"
      and dir: "block \<noteq> [] \<Longrightarrow> isDir"
  shows "rows_below lvl d (make_entry lvl item (join_with slash (d @ [item])) isDir # block)"
  unfolding rows_below_def
proof (intro allI impI)
  let ?e = "make_entry lvl item (join_with slash (d @ [item])) isDir"
  let ?rs = "?e # block"
  fix i assume i: "i < length ?rs"
  show "level (?rs ! i) + 1 = length (path_segments (path (?rs ! i))) \<and>
        name (?rs ! i) = repeat_indent (level (?rs ! i)) @ last (path_segments (path (?rs ! i))) \<and>
        ((level (?rs ! i) = lvl \<and> parent_path (path (?rs ! i)) = join_with slash d) \<or>
         (lvl < level (?rs ! i) \<and> (\<exists>j<i. is_parent_row (?rs ! j) (?rs ! i))))"
  proof (cases i)
    case 0
    then show ?thesis using l path_segments_join [OF v] by (simp add: parent_path_def)
  next
    case (Suc k)
    then have k: "k < length block" using i by simp
    then have "block \<noteq> []" by auto
    then have isDir by (rule dir)
    have e: "?rs ! i = block ! k" using Suc by simp
    from b k have f:
      "level (block ! k) + 1 = length (path_segments (path (block ! k)))"
      "name (block ! k) = repeat_indent (level (block ! k)) @ last (path_segments (path (block ! k)))"
      "(level (block ! k) = lvl + 1 \<and> parent_path (path (block ! k)) = join_with slash (d @ [item])) \<or>
         (lvl + 1 < level (block ! k) \<and> (\<exists>j<k. is_parent_row (block ! j) (block ! k)))"
      unfolding rows_below_def by blast+
    from f(3) have "lvl < level (block ! k) \<and> (\<exists>j<i. is_parent_row (?rs ! j) (block ! k))"
    proof
      assume a: "level (block ! k) = lvl + 1 \<and> parent_path (path (block ! k)) = join_with slash (d @ [item])"
      have "is_parent_row ?e (block ! k)"
        using a \<open>isDir\<close> by (simp add: is_parent_row_def strip_slash_dir)
      then have "is_parent_row (?rs ! 0) (block ! k)" by simp
      then show ?thesis using a Suc by (metis less_add_one zero_less_Suc)
    next
      assume a: "lvl + 1 < level (block ! k) \<and> (\<exists>j<k. is_parent_row (block ! j) (block ! k))"
      then obtain j where j: "j < k" "is_parent_row (block ! j) (block ! k)" by blast
      then have "Suc j < i" "is_parent_row (?rs ! Suc j) (block ! k)" using Suc by simp_all
      then show ?thesis using a by (metis add_lessD1)
    qed
    then show ?thesis using f(1,2) unfolding e by simp
  qed
qed

lemma forest_rows_below:
  "list_all (valid_name pf) d \<Longrightarrow> length d = lvl \<Longrightarrow> valid_fs pf node \<Longrightarrow>
   rows_below lvl d (concat (map preorder (dir_forest pf flt ex d node lvl)))"
  "list_all (valid_name pf) d \<Longrightarrow> length d = lvl \<Longrightarrow> valid_items pf items \<Longrightarrow>
   rows_below lvl d (concat (map preorder (items_forest pf flt ex d items lvl)))"
proof (induction pf flt ex d node lvl and pf flt ex d items lvl
       rule: dir_forest_items_forest.induct)
  case (1 pf flt ex d items lvl)
  then show ?case by simp
next
  case (6 pf flt ex d item child rest lvl)
  define rel where "rel = getRelativePath pf (d @ [item])"
  have v: "list_all (valid_name pf) (d @ [item])" and vc: "valid_fs pf child"
    and vr: "valid_items pf rest"
    using "6.prems" by simp_all
  have rel: "rel = join_with slash (d @ [item])"
    unfolding rel_def by (rule getRelativePath_valid [OF v])
  note d = "6.prems"(1,2)
  show ?case
  proof (cases "shouldExclude pf rel ex")
    case True
    then show ?thesis using "6.IH"(1) [OF rel_def True d vr] by (simp add: rel_def)
  next
    case nex: False
    show ?thesis
    proof (cases "statSync (d @ [item]) child")
      case (Inl e)
      then show ?thesis using nex by (simp add: rel_def)
    next
      case (Inr isDir)
      show ?thesis
      proof (cases isDir)
        case True
        show ?thesis
        proof (cases "hasIncludedFiles flt (d @ [item]) child")
          case (Inl e)
          then show ?thesis using nex Inr True by (simp add: rel_def)
        next
          case h: (Inr nonEmpty)
          show ?thesis
          proof (cases nonEmpty)
            case False
            then show ?thesis
              using "6.IH"(4) [OF rel_def nex Inr True h False d vr] nex Inr True h
              by (simp add: rel_def)
          next
            case ne: True
            have sub: "rows_below (lvl + 1) (d @ [item])
                 (concat (map preorder (dir_forest pf flt ex (d @ [item]) child (lvl + 1))))"
              using "6.IH"(2) [OF rel_def nex Inr True h ne v _ vc] d(2) by simp
            have "rows_below lvl d (make_entry lvl item (join_with slash (d @ [item])) True #
                 concat (map preorder (dir_forest pf flt ex (d @ [item]) child (lvl + 1))))"
              using v d(2) sub by (rule rows_below_node) simp
            moreover have "rows_below lvl d (concat (map preorder (items_forest pf flt ex d rest lvl)))"
              using "6.IH"(3) [OF rel_def nex Inr True h ne d vr] .
            ultimately have "rows_below lvl d
                 ((make_entry lvl item (join_with slash (d @ [item])) True #
                   concat (map preorder (dir_forest pf flt ex (d @ [item]) child (lvl + 1)))) @
                  concat (map preorder (items_forest pf flt ex d rest lvl)))"
              by (rule rows_below_append)
            then show ?thesis
              using nex Inr True h ne by (simp add: rel_def [symmetric] rel)
          qed
        qed
      next
        case False
        show ?thesis
        proof (cases "shouldIncludeFile flt item")
          case inc: True
          have "rows_below lvl d [make_entry lvl item (join_with slash (d @ [item])) False]"
            using v d(2) by (rule rows_below_node) simp_all
          moreover have "rows_below lvl d (concat (map preorder (items_forest pf flt ex d rest lvl)))"
            using "6.IH"(5) [OF rel_def nex Inr False inc d vr] .
          ultimately have "rows_below lvl d
               ([make_entry lvl item (join_with slash (d @ [item])) False] @
                concat (map preorder (items_forest pf flt ex d rest lvl)))"
            by (rule rows_below_append)
          then show ?thesis
            using nex Inr False inc by (simp add: rel_def [symmetric] rel)
        next
          case inc: False
          then show ?thesis
            using "6.IH"(6) [OF rel_def nex Inr False inc d vr] nex Inr False
            by (simp add: rel_def)
        qed
      qed
    qed
  qed
qed simp_all

lemma generateExcel_rows:
  "output_file (generateExcel pf flt base writable) = Some rep \<Longrightarrow>
   data_rows rep =
     concat (map preorder (dir_forest pf flt (fst (getExclusionList pf base)) [] base 0))"
  by (auto simp: generateExcel_def Let_def rows_walk split: prod.splits if_splits)

lemma repeat_indent_spaces: "repeat_indent n = replicate (2 * n) CHR '' ''"
  by (induction n) (simp_all add: repeat_indent_def)

lemma items_forest_listing_order:
  "subseq (map root (items_forest pf flt ex d items lvl)) (map (item_entry pf d lvl) items)"
proof (induction items)
  case Nil
  then show ?case by simp
next
  case (Cons x items)
  obtain item child where x: "x = (item, child)" by (cases x)
  show ?case
    using Cons unfolding x
    by (cases child) (auto simp: Let_def item_entry_def split: sum.splits)
qed

lemma dir_forest_cases:
  "dir_forest pf flt ex d node lvl = [] \<or>
   (\<exists>items. readdirSync d node = Inr items \<and>
      dir_forest pf flt ex d node lvl = items_forest pf flt ex d items lvl)"
  by (cases node) auto

section \<open>Order of the rows\<close>

text \<open>
  Claim C8. The rows a call of \<^verbatim>\<open>processDirectory\<close> appends are the pre-order
  sequence of the tree of rows of the directory: every directory row is
  followed at once by the rows of its own directory, the first of which is its
  first emitted child, and the rows of later siblings come after these. The
  tree of a directory is the tree of its listing, and the roots of the tree of
  a listing are, in the order of the listing, rows of items of the listing
  (some items left out, none moved). On the root listing
  \<^verbatim>\<open>z, a, dir1/{y, b}, c\<close> the rows come out in exactly that order, unsorted.
\<close>

theorem emitted_rows_preorder:
  "rows (processDirectory pf flt ex d node lvl st)
     = rows st @ concat (map preorder (dir_forest pf flt ex d node lvl)) \<and>
   (dir_forest pf flt ex d node lvl = [] \<or>
    (\<exists>items. readdirSync d node = Inr items \<and>
       dir_forest pf flt ex d node lvl = items_forest pf flt ex d items lvl)) \<and>
   subseq (map root (items_forest pf flt ex d listing lvl))
          (map (item_entry pf d lvl) listing) \<and>
   map path (rows (processDirectory Posix None [exclude_file_name] []
       (Dir [(''z'', File ''''), (''a'', File ''''),
             (''dir1'', Dir [(''y'', File ''''), (''b'', File '''')]), (''c'', File '''')])
       0 \<lparr>rows = [], rowIndex = 2, console_out = []\<rparr>))
     = [''z'', ''a'', ''dir1/'', ''dir1/y'', ''dir1/b'', ''c'']"
proof (intro conjI)
  show "rows (processDirectory pf flt ex d node lvl st)
     = rows st @ concat (map preorder (dir_forest pf flt ex d node lvl))"
    by (rule rows_walk)
  show "dir_forest pf flt ex d node lvl = [] \<or>
    (\<exists>items. readdirSync d node = Inr items \<and>
       dir_forest pf flt ex d node lvl = items_forest pf flt ex d items lvl)"
    by (rule dir_forest_cases)
  show "subseq (map root (items_forest pf flt ex d listing lvl))
          (map (item_entry pf d lvl) listing)"
    by (rule items_forest_listing_order)
  show "map path (rows (processDirectory Posix None [exclude_file_name] []
       (Dir [(''z'', File ''''), (''a'', File ''''),
             (''dir1'', Dir [(''y'', File ''''), (''b'', File '''')]), (''c'', File '''')])
       0 \<lparr>rows = [], rowIndex = 2, console_out = []\<rparr>))
     = [''z'', ''a'', ''dir1/'', ''dir1/y'', ''dir1/b'', ''c'']"
    by code_simp
qed

section \<open>The rows as a tree\<close>

text \<open>
  Claim C10. In a file system whose names are valid, the rows of every report
  form a tree: the level of a row is the number of segments of its path minus
  one, and a row at level \<open>k \<ge> 1\<close> has, earlier in the sequence, a directory
  row at level \<open>k - 1\<close> whose path without the trailing slash is its parent
  path.
\<close>

theorem emitted_rows_form_tree:
  assumes "valid_fs pf base"
      and "output_file (generateExcel pf flt base writable) = Some rep"
  shows "\<forall>i<length (data_rows rep).
           level (data_rows rep ! i) + 1 = length (path_segments (path (data_rows rep ! i))) \<and>
           (1 \<le> level (data_rows rep ! i) \<longrightarrow>
              (\<exists>j<i. is_parent_row (data_rows rep ! j) (data_rows rep ! i)))"
proof -
  have "rows_below 0 [] (data_rows rep)"
    unfolding generateExcel_rows [OF assms(2)]
    using assms(1) by (intro forest_rows_below) simp_all
  then show ?thesis unfolding rows_below_def by fastforce
qed

theorem emitted_rows_form_tree_witness:
  "valid_fs Posix (Dir [(''d'', Dir [(''f'', File '''')])]) \<and>
   output_file (generateExcel Posix None (Dir [(''d'', Dir [(''f'', File '''')])]) True) =
     Some \<lparr>data_rows =
             [\<lparr>level = 0, rtype = Directory, name = ''d'', path = ''d/'', status = ''pending''\<rparr>,
              \<lparr>level = 1, rtype = FileRow, name = ''  f'', path = ''d/f'', status = ''pending''\<rparr>],
           autoFilter_to_row = 3\<rparr> \<and>
   (\<exists>j<1. is_parent_row
      ([\<lparr>level = 0, rtype = Directory, name = ''d'', path = ''d/'', status = ''pending''\<rparr>,
        \<lparr>level = 1, rtype = FileRow, name = ''  f'', path = ''d/f'', status = ''pending''\<rparr>] ! j)
      \<lparr>level = 1, rtype = FileRow, name = ''  f'', path = ''d/f'', status = ''pending''\<rparr>)"
proof -
  let ?fs = "Dir [(''d'', Dir [(''f'', File '''')])]"
  let ?rep = "\<lparr>data_rows =
             [\<lparr>level = 0, rtype = Directory, name = ''d'', path = ''d/'', status = ''pending''\<rparr>,
              \<lparr>level = 1, rtype = FileRow, name = ''  f'', path = ''d/f'', status = ''pending''\<rparr>],
           autoFilter_to_row = 3\<rparr>"
  have h1: "valid_fs Posix ?fs" by (simp add: valid_name_def)
  have h2: "output_file (generateExcel Posix None ?fs True) = Some ?rep" by code_simp
  from emitted_rows_form_tree [OF h1 h2, rule_format, of 1] h1 h2
  show ?thesis by simp
qed

section \<open>The name cell\<close>

text \<open>
  Claim C5, as the code has it. In a file system whose names are valid, the
  \<^verbatim>\<open>name\<close> cell of every emitted row is two spaces for each level of the
  row followed by the raw segment name of the item, the last segment of the
  row's path; it holds no other path component.
\<close>

theorem emitted_row_name_indented:
  assumes "valid_fs pf base"
      and "output_file (generateExcel pf flt base writable) = Some rep"
      and "e \<in> set (data_rows rep)"
  shows "name e = replicate (2 * level e) CHR '' '' @ last (path_segments (path e))"
proof -
  have "rows_below 0 [] (data_rows rep)"
    unfolding generateExcel_rows [OF assms(2)]
    using assms(1) by (intro forest_rows_below) simp_all
  moreover obtain i where "i < length (data_rows rep)" "e = data_rows rep ! i"
    using assms(3) by (auto simp: in_set_conv_nth)
  ultimately show ?thesis unfolding rows_below_def by (simp add: repeat_indent_spaces)
qed

theorem emitted_row_name_indented_witness:
  "valid_fs Posix (Dir [(''d'', Dir [(''f'', File '''')])]) \<and>
   output_file (generateExcel Posix None (Dir [(''d'', Dir [(''f'', File '''')])]) True) =
     Some \<lparr>data_rows =
             [\<lparr>level = 0, rtype = Directory, name = ''d'', path = ''d/'', status = ''pending''\<rparr>,
              \<lparr>level = 1, rtype = FileRow, name = ''  f'', path = ''d/f'', status = ''pending''\<rparr>],
           autoFilter_to_row = 3\<rparr> \<and>
   ''  f'' = replicate (2 * 1) CHR '' '' @ last (path_segments ''d/f'')"
proof -
  let ?fs = "Dir [(''d'', Dir [(''f'', File '''')])]"
  let ?e = "\<lparr>level = 1, rtype = FileRow, name = ''  f'', path = ''d/f'', status = ''pending''\<rparr>"
  let ?rep = "\<lparr>data_rows =
             [\<lparr>level = 0, rtype = Directory, name = ''d'', path = ''d/'', status = ''pending''\<rparr>, ?e],
           autoFilter_to_row = 3\<rparr>"
  have h1: "valid_fs Posix ?fs" by (simp add: valid_name_def)
  have h2: "output_file (generateExcel Posix None ?fs True) = Some ?rep" by code_simp
  have h3: "?e \<in> set (data_rows ?rep)" by simp
  from emitted_row_name_indented [OF h1 h2 h3] h1 h2
  show ?thesis by simp
qed

text \<open>
  The claim as stated has the name equal to the raw segment name and nothing
  else. The file \<^verbatim>\<open>f\<close> in the directory \<^verbatim>\<open>d\<close> gets the name \<^verbatim>\<open>f\<close> after two
  spaces.
\<close>

theorem emitted_row_name_counterexample:
  "output_file (generateExcel Posix None (Dir [(''d'', Dir [(''f'', File '''')])]) True) =
     Some \<lparr>data_rows =
             [\<lparr>level = 0, rtype = Directory, name = ''d'', path = ''d/'', status = ''pending''\<rparr>,
              \<lparr>level = 1, rtype = FileRow, name = ''  f'', path = ''d/f'', status = ''pending''\<rparr>],
           autoFilter_to_row = 3\<rparr> \<and>
   name \<lparr>level = 1, rtype = FileRow, name = ''  f'', path = ''d/f'', status = ''pending''\<rparr>
     \<noteq> last (path_segments ''d/f'')"
  by code_simp

section \<open>Pruning and exclusion\<close>

















section \<open>Exclusion in the walk\<close>











section \<open>File system errors\<close>













section \<open>A root that cannot be listed\<close>

lemma getExclusionList_no_listing:
  "readdirSync p base = Inl e \<Longrightarrow> getExclusionList pf base = ([exclude_file_name], [])"
  by (cases base) (simp_all add: getExclusionList_def existsSync_def lookup_child_def)

text \<open>
  Claim C2, as the code has it. When the root path cannot be listed (it is
  missing, is not a directory, or is unreadable), the exception is caught
  inside \<^verbatim>\<open>processDirectory\<close> and logged with the root path; the run is not
  aborted: no row is emitted, and the workbook is still written, without data
  rows, whenever the writer succeeds, the last message reporting success.
\<close>

theorem generateExcel_root_unreadable:
  assumes "readdirSync [] base = Inl e"
  shows "output_file (generateExcel pf flt base writable)
           = (if writable then Some \<lparr>data_rows = [], autoFilter_to_row = 1\<rparr> else None) \<and>
         ErrorProcessingDirectory [] e \<in> set (console_log (generateExcel pf flt base writable)) \<and>
         last (console_log (generateExcel pf flt base writable))
           = (if writable then GeneratedSuccessfully else ErrorGeneratingExcel)"
  by (simp add: generateExcel_def getExclusionList_no_listing [OF assms]
        processDirectory_listing_fails [OF assms] log_error_def)

theorem generateExcel_root_unreadable_witness:
  "readdirSync [] Missing = Inl (FsError ENOENT ''scandir'' []) \<and>
   output_file (generateExcel Posix None Missing True)
     = Some \<lparr>data_rows = [], autoFilter_to_row = 1\<rparr> \<and>
   ErrorProcessingDirectory [] (FsError ENOENT ''scandir'' [])
     \<in> set (console_log (generateExcel Posix None Missing True))"
proof -
  have h: "readdirSync [] Missing = Inl (FsError ENOENT ''scandir'' [])" by simp
  from generateExcel_root_unreadable [OF h, of Posix None True] h
  show ?thesis by simp
qed

text \<open>
  The claim as stated has such a run aborted without an output file. For a
  missing root the run writes a report and logs success.
\<close>

theorem generateExcel_root_missing_counterexample:
  "generateExcel Posix None Missing True =
     \<lparr>output_file = Some \<lparr>data_rows = [], autoFilter_to_row = 1\<rparr>,
      console_log = [ExcludedItems [exclude_file_name],
                     ErrorProcessingDirectory [] (FsError ENOENT ''scandir'' []),
                     GeneratedSuccessfully]\<rparr> \<and>
   output_file (generateExcel Posix None Missing True) \<noteq> None"
  by code_simp

end
